theory Spec2Isabelle
  imports Main "HOL-Library.Char_ord" "HOL-Library.List_Lexorder"
begin

section \<open>Assignment governance check (scripts/validate.py)\<close>

text \<open>
  A shallow embedding of \<^verbatim>\<open>scripts/validate.py\<close>: the path filter
  \<^verbatim>\<open>should_exclude\<close>, the candidate selection \<^verbatim>\<open>get_files_to_check\<close> and the
  rule evaluation and reporting of \<^verbatim>\<open>main\<close>.

  Conventions of the model.
  \<^item> A Python \<^verbatim>\<open>str\<close> is a \<open>string\<close>; a character is read as a code point below 256.
  \<^item> A \<^verbatim>\<open>pathlib.Path\<close> is the list of its \<^verbatim>\<open>parts\<close>; an absolute path starts with
    the anchor \<open>''/''\<close>.
  \<^item> The file system is a tree of regular files and directories. It has no symbolic
    links and no permissions (every regular file can be opened, every directory can be
    listed), and its names are within the limits of the operating system, so that
    \<^verbatim>\<open>exists\<close>, \<^verbatim>\<open>is_file\<close> and \<^verbatim>\<open>is_dir\<close> never raise. The order of a
    directory's entry list is the order in which the operating system lists the
    directory.
  \<^item> The outcome of the \<^verbatim>\<open>git diff\<close> subprocess is a parameter: \<open>None\<close> when
    \<^verbatim>\<open>check_output\<close> raises, \<open>Some out\<close> with the captured text otherwise.
  \<^item> Every \<^verbatim>\<open>raise\<close> that escapes \<^verbatim>\<open>main\<close> is a value \<open>Inl e\<close>.
  \<^item> Of the console output only the final report is kept: the table of violations or the
    success line. The panel that names the mode is printed before any check and is left
    out.
\<close>

subsection \<open>Python strings\<close>

definition startswith :: "string \<Rightarrow> string \<Rightarrow> bool" where
  "startswith s pre = (take (length pre) s = pre)"

definition endswith :: "string \<Rightarrow> string \<Rightarrow> bool" where
  "endswith s suf = (length suf \<le> length s \<and> drop (length s - length suf) s = suf)"

text \<open>\<^verbatim>\<open>str.isspace\<close> on one character: 9..13, 28..32, 0x85 and 0xA0.\<close>

definition is_space :: "char \<Rightarrow> bool" where
  "is_space c = (let n = (of_char c :: nat) in
     (9 \<le> n \<and> n \<le> 13) \<or> (28 \<le> n \<and> n \<le> 32) \<or> n = 133 \<or> n = 160)"

definition strip :: "string \<Rightarrow> string" where
  "strip s = rev (dropWhile is_space (rev (dropWhile is_space s)))"

text \<open>The line boundaries of \<^verbatim>\<open>str.splitlines\<close>: LF, VT, FF, CR, FS, GS, RS and NEL;
  CR LF counts once.\<close>

definition is_line_boundary :: "char \<Rightarrow> bool" where
  "is_line_boundary c = (let n = (of_char c :: nat) in
     (10 \<le> n \<and> n \<le> 13) \<or> (28 \<le> n \<and> n \<le> 30) \<or> n = 133)"

fun splitlines_from :: "string \<Rightarrow> string \<Rightarrow> string list" where
  "splitlines_from cur [] = (if cur = [] then [] else [cur])"
| "splitlines_from cur [c] =
     (if is_line_boundary c then [cur] else [cur @ [c]])"
| "splitlines_from cur (c # d # cs) =
     (if c = CHR 0x0D \<and> d = CHR 0x0A then cur # splitlines_from [] cs
      else if is_line_boundary c then cur # splitlines_from [] (d # cs)
      else splitlines_from (cur @ [c]) (d # cs))"

definition splitlines :: "string \<Rightarrow> string list" where
  "splitlines s = splitlines_from [] s"

text \<open>\<^verbatim>\<open>str.lower\<close>: A..Z and the upper-case letters of Latin-1 move up by 32.\<close>

definition lower_char :: "char \<Rightarrow> char" where
  "lower_char c = (let n = (of_char c :: nat) in
     if (65 \<le> n \<and> n \<le> 90) \<or> (192 \<le> n \<and> n \<le> 222 \<and> n \<noteq> 215)
     then char_of (n + 32) else c)"

definition lower :: "string \<Rightarrow> string" where
  "lower s = map lower_char s"

fun split_sep :: "char \<Rightarrow> string \<Rightarrow> string list" where
  "split_sep sep [] = [[]]"
| "split_sep sep (c # cs) =
     (if c = sep then [] # split_sep sep cs
      else (case split_sep sep cs of
              [] \<Rightarrow> [[c]]
            | x # xs \<Rightarrow> (c # x) # xs))"

definition rfind :: "char \<Rightarrow> string \<Rightarrow> nat option" where
  "rfind c s = (if c \<in> set s
     then Some (length s - 1 - length (takeWhile (\<lambda>x. x \<noteq> c) (rev s)))
     else None)"

subsection \<open>Paths (pathlib, POSIX flavour)\<close>

type_synonym path = "string list"

definition is_absolute :: "path \<Rightarrow> bool" where
  "is_absolute p = (case p of [] \<Rightarrow> False | a # _ \<Rightarrow> a = ''/'' \<or> a = ''//'')"

text \<open>Parsing a string into parts: empty and \<open>''.''\<close> components vanish, \<open>''..''\<close> stays,
  exactly two leading slashes give the anchor \<open>''//''\<close>.\<close>

definition parse_parts :: "string \<Rightarrow> path" where
  "parse_parts s =
     (let segs = filter (\<lambda>x. x \<noteq> [] \<and> x \<noteq> ''.'') (split_sep CHR ''/'' s)
      in if startswith s ''//'' \<and> \<not> startswith s ''///'' then ''//'' # segs
         else if startswith s ''/'' then ''/'' # segs
         else segs)"

text \<open>\<^verbatim>\<open>root / s\<close>: an absolute right-hand side replaces the left-hand side.\<close>

definition joinpath :: "path \<Rightarrow> string \<Rightarrow> path" where
  "joinpath root s =
     (let q = parse_parts s in if is_absolute q then q else root @ q)"

text \<open>\<^verbatim>\<open>p.relative_to(root)\<close> raises ValueError (here \<open>None\<close>) unless the parts of
  \<open>root\<close> are a prefix of those of \<open>p\<close>.\<close>

definition relative_to :: "path \<Rightarrow> path \<Rightarrow> path option" where
  "relative_to p root =
     (if take (length root) p = root then Some (drop (length root) p) else None)"

definition name :: "path \<Rightarrow> string" where
  "name p = (if p = [] \<or> (length p = 1 \<and> is_absolute p) then [] else last p)"

definition suffix :: "path \<Rightarrow> string" where
  "suffix p =
     (let nm = name p in
      case rfind CHR ''.'' nm of
        None \<Rightarrow> []
      | Some i \<Rightarrow> if 0 < i \<and> i + 1 < length nm then drop i nm else [])"

subsection \<open>Constraints\<close>

record constraints =
  max_src_files :: nat
  max_line_count :: nat
  max_asset_size_bytes :: nat
  question_prefix :: string
  target_ext :: string
  ignored_parts :: "string set"
  asset_exts :: "string set"
  whitelisted_files :: "string set"

definition Constraints :: constraints where
  "Constraints = \<lparr>
     max_src_files = 5,
     max_line_count = 500,
     max_asset_size_bytes = 5 * 1024 * 1024,
     question_prefix = ''q'',
     target_ext = ''.py'',
     ignored_parts = {''.venv'', ''venv'', ''.git'', ''__pycache__'', ''.pytest_cache'',
                      ''.devcontainer'', ''infra''},
     asset_exts = {''.jpg'', ''.jpeg'', ''.png'', ''.mp4'', ''.mov'', ''.avi''},
     whitelisted_files = {''.gitignore'', ''README.md'', ''pyproject.toml'', ''uv.lock'',
                          ''Makefile'', ''config.yaml''} \<rparr>"

subsection \<open>PathFilter\<close>

definition should_exclude :: "path \<Rightarrow> string set \<Rightarrow> bool" where
  "should_exclude p ign = list_ex (\<lambda>part. part \<in> ign \<or> startswith part ''.'') p"

subsection \<open>The file system\<close>

datatype node =
    File (st_size: nat) (text_lines: "string list")
  | Dir (st_size: nat) (entries: "(string \<times> node) list")

text \<open>A regular file carries its size in bytes and the lines that iterating over it in
  text mode with \<^verbatim>\<open>errors="ignore"\<close> yields (so decoding cannot fail).
  A directory carries its own \<^verbatim>\<open>st_size\<close> and its entries in listing order.\<close>

text \<open>Path resolution from a directory \<open>cur\<close>, with the chain of its ancestors for
  \<open>''..''\<close>; the parent of the top directory is itself.\<close>

fun walk :: "node \<Rightarrow> node list \<Rightarrow> string list \<Rightarrow> node option" where
  "walk cur up [] = Some cur"
| "walk cur up (s # ss) =
     (case cur of
        File _ _ \<Rightarrow> None
      | Dir _ es \<Rightarrow>
          if s = ''..'' then
            (case up of [] \<Rightarrow> walk cur [] ss | u # us \<Rightarrow> walk u us ss)
          else
            (case map_of es s of
               None \<Rightarrow> None
             | Some c \<Rightarrow> walk c (cur # up) ss))"

text \<open>Only absolute paths are looked up: \<open>root\<close> is the value of
  \<^verbatim>\<open>Path(path).resolve()\<close>, and every path the program queries extends it or is
  absolute itself. A path without anchor finds nothing.\<close>

definition node_at :: "node \<Rightarrow> path \<Rightarrow> node option" where
  "node_at fs p =
     (case p of
        [] \<Rightarrow> None
      | a # segs \<Rightarrow> if a = ''/'' \<or> a = ''//'' then walk fs [] segs else None)"

definition exists :: "node \<Rightarrow> path \<Rightarrow> bool" where
  "exists fs p = (node_at fs p \<noteq> None)"

definition is_file :: "node \<Rightarrow> path \<Rightarrow> bool" where
  "is_file fs p = (case node_at fs p of Some (File _ _) \<Rightarrow> True | _ \<Rightarrow> False)"

definition is_dir :: "node \<Rightarrow> path \<Rightarrow> bool" where
  "is_dir fs p = (case node_at fs p of Some (Dir _ _) \<Rightarrow> True | _ \<Rightarrow> False)"

text \<open>\<^verbatim>\<open>root.rglob("*")\<close>: every path below a directory, files and directories, dot
  names included. The order is that of CPython up to 3.12: the directories are visited
  in pre-order, and each visited directory yields all of its entries, in listing order,
  before anything of its subdirectories: \<open>rglob_node\<close> lists the entries of a directory
  and then descends, \<open>rglob_entries\<close> is the descent into each entry in turn. Below
  something that is not a directory there is nothing.\<close>

fun rglob_node :: "path \<Rightarrow> node \<Rightarrow> path list"
  and rglob_entries :: "path \<Rightarrow> (string \<times> node) list \<Rightarrow> path list" where
  "rglob_node p (File _ _) = []"
| "rglob_node p (Dir _ es) = map (\<lambda>e. p @ [fst e]) es @ rglob_entries p es"
| "rglob_entries p [] = []"
| "rglob_entries p (e # es) = rglob_node (p @ [fst e]) (snd e) @ rglob_entries p es"

definition rglob :: "node \<Rightarrow> path \<Rightarrow> path list" where
  "rglob fs root = (case node_at fs root of None \<Rightarrow> [] | Some n \<Rightarrow> rglob_node root n)"

subsection \<open>ChangeSetResolver\<close>

definition all_files :: "node \<Rightarrow> path \<Rightarrow> string set \<Rightarrow> path list" where
  "all_files fs root ign =
     filter (\<lambda>p. is_file fs p \<and> \<not> should_exclude p ign) (rglob fs root)"

definition get_files_to_check ::
  "node \<Rightarrow> string option \<Rightarrow> path \<Rightarrow> bool \<Rightarrow> string set \<Rightarrow> path list" where
  "get_files_to_check fs git root is_local ign =
     (if is_local then all_files fs root ign
      else case git of
        None \<Rightarrow> all_files fs root ign
      | Some out \<Rightarrow>
          (let result = strip out in
           if result \<noteq> [] then
             (let all_changed =
                    map (\<lambda>line. joinpath root (strip line))
                      (filter (\<lambda>line. strip line \<noteq> []) (splitlines result))
              in filter (\<lambda>p. \<not> should_exclude p ign) all_changed)
           else all_files fs root ign))"

subsection \<open>Violations and their messages\<close>

datatype error = ValueError | FileNotFoundError | NotADirectoryError | IsADirectoryError

text \<open>A violation is the message string that \<^verbatim>\<open>main\<close> appends; the constructor
  records which of the four f-strings built it, \<open>message\<close> is the string.\<close>

datatype violation =
    AssetTooLarge path
  | Forbidden path
  | TooManyScripts string
  | TooManyLines path nat

fun join_sep :: "string \<Rightarrow> string list \<Rightarrow> string" where
  "join_sep sep [] = []"
| "join_sep sep [x] = x"
| "join_sep sep (x # y # ys) = x @ sep @ join_sep sep (y # ys)"

text \<open>\<^verbatim>\<open>str\<close> of a relative path.\<close>

definition str_path :: "path \<Rightarrow> string" where
  "str_path p = (if p = [] then ''.'' else join_sep ''/'' p)"

fun str_nat :: "nat \<Rightarrow> string" where
  "str_nat n = (if n < 10 then [char_of (48 + n)]
                else str_nat (n div 10) @ [char_of (48 + n mod 10)])"

fun message :: "violation \<Rightarrow> string" where
  "message (AssetTooLarge rel) = ''Asset [bold]'' @ str_path rel @ ''[/bold] exceeds 5MB.''"
| "message (Forbidden rel) = ''Forbidden modification: [bold]'' @ str_path rel @ ''[/bold].''"
| "message (TooManyScripts q) = q @ ''/src has too many scripts.''"
| "message (TooManyLines rel n) =
     ''File [bold]'' @ str_path rel @ ''[/bold] > '' @ str_nat n @ '' lines.''"

subsection \<open>ConstraintEngine: the loop over the candidate files\<close>

record run_state =
  violations :: "violation list"
  total_py_files :: nat
  total_lines :: nat

definition init_state :: run_state where
  "init_state = \<lparr> violations = [], total_py_files = 0, total_lines = 0 \<rparr>"

definition append_violation :: "violation \<Rightarrow> run_state \<Rightarrow> run_state" where
  "append_violation v st = st\<lparr> violations := violations st @ [v] \<rparr>"

definition stat :: "node \<Rightarrow> path \<Rightarrow> error + nat" where
  "stat fs p = (case node_at fs p of
                  None \<Rightarrow> Inl FileNotFoundError
                | Some n \<Rightarrow> Inr (st_size n))"

text \<open>Lines 114 to 118. The message is built with \<^verbatim>\<open>relative_to\<close> outside any
  \<^verbatim>\<open>try\<close>, so its ValueError escapes.\<close>

definition asset_rule ::
  "constraints \<Rightarrow> node \<Rightarrow> path \<Rightarrow> run_state \<Rightarrow> path \<Rightarrow> error + run_state" where
  "asset_rule c fs root st path_obj =
     (if lower (suffix path_obj) \<in> asset_exts c then
        (case stat fs path_obj of
           Inl e \<Rightarrow> Inl e
         | Inr sz \<Rightarrow>
             if sz > max_asset_size_bytes c then
               (case relative_to path_obj root of
                  None \<Rightarrow> Inl ValueError
                | Some rel \<Rightarrow> Inr (append_violation (AssetTooLarge rel) st))
             else Inr st)
      else Inr st)"

text \<open>Lines 120 to 130. The ValueError of \<^verbatim>\<open>relative_to\<close> is caught and the loop
  continues.\<close>

definition scope_rule ::
  "constraints \<Rightarrow> path \<Rightarrow> bool \<Rightarrow> bool \<Rightarrow> run_state \<Rightarrow> path \<Rightarrow> run_state" where
  "scope_rule c root local is_instructor st path_obj =
     (if \<not> local \<and> \<not> is_instructor then
        (case relative_to path_obj root of
           None \<Rightarrow> st
         | Some rel \<Rightarrow>
             (let is_in_src = ''src'' \<in> set rel;
                  is_in_assets = ''assets'' \<in> set rel;
                  is_whitelisted = name rel \<in> whitelisted_files c
              in if \<not> (is_in_src \<or> is_in_assets \<or> is_whitelisted)
                 then append_violation (Forbidden rel) st
                 else st))
      else st)"

definition check_candidate ::
  "constraints \<Rightarrow> node \<Rightarrow> path \<Rightarrow> bool \<Rightarrow> bool \<Rightarrow> run_state \<Rightarrow> path \<Rightarrow> error + run_state"
  where
  "check_candidate c fs root local is_instructor st path_obj =
     (if \<not> exists fs path_obj then Inr st
      else case asset_rule c fs root st path_obj of
             Inl e \<Rightarrow> Inl e
           | Inr st1 \<Rightarrow> Inr (scope_rule c root local is_instructor st1 path_obj))"

fun check_files ::
  "constraints \<Rightarrow> node \<Rightarrow> path \<Rightarrow> bool \<Rightarrow> bool \<Rightarrow> run_state \<Rightarrow> path list \<Rightarrow> error + run_state"
  where
  "check_files c fs root local is_instructor st [] = Inr st"
| "check_files c fs root local is_instructor st (path_obj # files) =
     (case check_candidate c fs root local is_instructor st path_obj of
        Inl e \<Rightarrow> Inl e
      | Inr st1 \<Rightarrow> check_files c fs root local is_instructor st1 files)"

subsection \<open>ConstraintEngine: the scan of the question directories\<close>

definition iterdir :: "node \<Rightarrow> path \<Rightarrow> error + path list" where
  "iterdir fs d = (case node_at fs d of
                     None \<Rightarrow> Inl FileNotFoundError
                   | Some (File _ _) \<Rightarrow> Inl NotADirectoryError
                   | Some (Dir _ es) \<Rightarrow> Inr (map (\<lambda>e. d @ [fst e]) es))"

text \<open>\<^verbatim>\<open>d.glob("*" + ext)\<close> for an extension without pattern characters: the entries
  of \<open>d\<close>, files or directories, whose name ends with \<open>ext\<close>; nothing when \<open>d\<close> is not a
  directory.\<close>

definition glob_ext :: "node \<Rightarrow> path \<Rightarrow> string \<Rightarrow> path list" where
  "glob_ext fs d ext =
     (case node_at fs d of
        Some (Dir _ es) \<Rightarrow> map (\<lambda>e. d @ [fst e]) (filter (\<lambda>e. endswith (fst e) ext) es)
      | _ \<Rightarrow> [])"

definition open_lines :: "node \<Rightarrow> path \<Rightarrow> error + string list" where
  "open_lines fs f = (case node_at fs f of
                        None \<Rightarrow> Inl FileNotFoundError
                      | Some (Dir _ _) \<Rightarrow> Inl IsADirectoryError
                      | Some (File _ ls) \<Rightarrow> Inr ls)"

text \<open>Lines 148 to 155.\<close>

fun check_py_files ::
  "constraints \<Rightarrow> node \<Rightarrow> path \<Rightarrow> run_state \<Rightarrow> path list \<Rightarrow> error + run_state" where
  "check_py_files c fs root st [] = Inr st"
| "check_py_files c fs root st (f # py_files) =
     (case open_lines fs f of
        Inl e \<Rightarrow> Inl e
      | Inr ls \<Rightarrow>
          (let count = length ls;
               st1 = st\<lparr> total_lines := total_lines st + count \<rparr>
           in if count > max_line_count c then
                (case relative_to f root of
                   None \<Rightarrow> Inl ValueError
                 | Some rel \<Rightarrow>
                     check_py_files c fs root
                       (append_violation (TooManyLines rel (max_line_count c)) st1) py_files)
              else check_py_files c fs root st1 py_files))"

text \<open>Lines 139 to 155.\<close>

fun check_q_dirs ::
  "constraints \<Rightarrow> node \<Rightarrow> path \<Rightarrow> run_state \<Rightarrow> path list \<Rightarrow> error + run_state" where
  "check_q_dirs c fs root st [] = Inr st"
| "check_q_dirs c fs root st (q_dir # q_dirs) =
     (let src_path = joinpath q_dir ''src'' in
      if exists fs src_path then
        (let py_files = glob_ext fs src_path (target_ext c);
             st1 = st\<lparr> total_py_files := total_py_files st + length py_files \<rparr>;
             st2 = (if length py_files > max_src_files c
                    then append_violation (TooManyScripts (name q_dir)) st1
                    else st1)
         in case check_py_files c fs root st2 py_files of
              Inl e \<Rightarrow> Inl e
            | Inr st3 \<Rightarrow> check_q_dirs c fs root st3 q_dirs)
      else check_q_dirs c fs root st q_dirs)"

text \<open>Lines 132 to 138.\<close>

definition question_dirs :: "constraints \<Rightarrow> node \<Rightarrow> path \<Rightarrow> error + path list" where
  "question_dirs c fs root =
     (case iterdir fs root of
        Inl e \<Rightarrow> Inl e
      | Inr ds \<Rightarrow>
          Inr (sort (filter (\<lambda>d. is_dir fs d \<and> startswith (name d) (question_prefix c)) ds)))"

text \<open>Lines 105 to 155 of \<^verbatim>\<open>main\<close>: the spec's \<^verbatim>\<open>evaluate\<close>.\<close>

definition evaluate ::
  "constraints \<Rightarrow> node \<Rightarrow> path \<Rightarrow> bool \<Rightarrow> bool \<Rightarrow> path list \<Rightarrow> error + run_state" where
  "evaluate c fs root local is_instructor files =
     (case check_files c fs root local is_instructor init_state files of
        Inl e \<Rightarrow> Inl e
      | Inr st \<Rightarrow>
          (case question_dirs c fs root of
             Inl e \<Rightarrow> Inl e
           | Inr q_dirs \<Rightarrow> check_q_dirs c fs root st q_dirs))"

subsection \<open>Reporter and main\<close>

datatype printed = Table "(string \<times> string) list" | AllChecksPassed

text \<open>Lines 157 to 168: what is printed and the exit status.\<close>

definition report :: "violation list \<Rightarrow> printed \<times> nat" where
  "report vs =
     (if vs \<noteq> [] then (Table (map (\<lambda>v. (''Constraint Error'', message v)) vs), 1)
      else (AllChecksPassed, 0))"

definition is_instructor_env :: "string option \<Rightarrow> bool" where
  "is_instructor_env v = (lower (case v of None \<Rightarrow> ''false'' | Some s \<Rightarrow> s) = ''true'')"

text \<open>\<open>main\<close> takes the \<^verbatim>\<open>--local\<close> flag, the value of \<^verbatim>\<open>IS_INSTRUCTOR\<close> in the
  environment, the resolved root, the file system and the subprocess outcome. An uncaught
  exception is \<open>Inl\<close>; otherwise the result is the report and the exit status.\<close>

definition main ::
  "bool \<Rightarrow> string option \<Rightarrow> path \<Rightarrow> node \<Rightarrow> string option \<Rightarrow> error + (printed \<times> nat)" where
  "main local env root fs git =
     (let constraints = Constraints;
          is_instructor = is_instructor_env env;
          files = get_files_to_check fs git root local (ignored_parts constraints)
      in case evaluate constraints fs root local is_instructor files of
           Inl e \<Rightarrow> Inl e
         | Inr st \<Rightarrow> Inr (report (violations st)))"

section \<open>Notions used in the statements and proofs\<close>

subsection \<open>What each loop iteration contributes\<close>

text \<open>The violations one candidate contributes and the violations one question
  directory contributes, as plain lists. The lemmas below show that a run that does not
  raise collects exactly their concatenation.\<close>

definition oversize_asset :: "constraints \<Rightarrow> node \<Rightarrow> path \<Rightarrow> bool" where
  "oversize_asset c fs p =
     (lower (suffix p) \<in> asset_exts c \<and>
      (case node_at fs p of None \<Rightarrow> False | Some n \<Rightarrow> st_size n > max_asset_size_bytes c))"

definition asset_vs :: "constraints \<Rightarrow> node \<Rightarrow> path \<Rightarrow> path \<Rightarrow> violation list" where
  "asset_vs c fs root p =
     (if oversize_asset c fs p \<and> take (length root) p = root
      then [AssetTooLarge (drop (length root) p)] else [])"

definition out_of_scope :: "constraints \<Rightarrow> node \<Rightarrow> path \<Rightarrow> bool \<Rightarrow> bool \<Rightarrow> path \<Rightarrow> bool" where
  "out_of_scope c fs root local is_instructor p =
     (exists fs p \<and> \<not> local \<and> \<not> is_instructor \<and> take (length root) p = root \<and>
      ''src'' \<notin> set (drop (length root) p) \<and> ''assets'' \<notin> set (drop (length root) p) \<and>
      name (drop (length root) p) \<notin> whitelisted_files c)"

definition scope_vs :: "constraints \<Rightarrow> node \<Rightarrow> path \<Rightarrow> bool \<Rightarrow> bool \<Rightarrow> path \<Rightarrow> violation list" where
  "scope_vs c fs root local is_instructor p =
     (if out_of_scope c fs root local is_instructor p
      then [Forbidden (drop (length root) p)] else [])"

definition too_long :: "constraints \<Rightarrow> node \<Rightarrow> path \<Rightarrow> bool" where
  "too_long c fs f =
     (case node_at fs f of Some (File _ ls) \<Rightarrow> length ls > max_line_count c | _ \<Rightarrow> False)"

definition py_vs :: "constraints \<Rightarrow> node \<Rightarrow> path \<Rightarrow> path \<Rightarrow> violation list" where
  "py_vs c fs root f =
     (if too_long c fs f \<and> take (length root) f = root
      then [TooManyLines (drop (length root) f) (max_line_count c)] else [])"

definition too_many :: "constraints \<Rightarrow> node \<Rightarrow> path \<Rightarrow> bool" where
  "too_many c fs d =
     (exists fs (d @ [''src'']) \<and>
      length (glob_ext fs (d @ [''src'']) (target_ext c)) > max_src_files c)"

definition q_vs :: "constraints \<Rightarrow> node \<Rightarrow> path \<Rightarrow> path \<Rightarrow> violation list" where
  "q_vs c fs root d =
     (if too_many c fs d then [TooManyScripts (name d)] else [])
     @ concat (map (py_vs c fs root) (glob_ext fs (d @ [''src'']) (target_ext c)))"

subsection \<open>File systems that list each name once\<close>

text \<open>A directory of a real file system lists each entry name once. The counting
  statements about the scan of the question directories assume it.\<close>

fun unique_names :: "node \<Rightarrow> bool"
  and unique_names_entries :: "(string \<times> node) list \<Rightarrow> bool" where
  "unique_names (File _ _) = True"
| "unique_names (Dir _ es) = (distinct (map fst es) \<and> unique_names_entries es)"
| "unique_names_entries [] = True"
| "unique_names_entries (e # es) = (unique_names (snd e) \<and> unique_names_entries es)"


subsection \<open>Example inputs\<close>

text \<open>A submission with a stray text file, a video one byte over the limit, an image of
  exactly the limit, an asset under \<open>assets\<close> and a whitelisted file; the change set also
  names a file that is gone.\<close>

definition ci_root :: path where
  "ci_root = [''/'', ''r'']"

definition ci_fs :: node where
  "ci_fs = Dir 4096 [(''r'', Dir 4096
     [(''notes.txt'', File 12 [''hello'']),
      (''movie.MP4'', File 5242881 []),
      (''photo.png'', File 5242880 []),
      (''assets'', Dir 4096 [(''logo.png'', File 100 [])]),
      (''README.md'', File 5 [''x''])])]"

definition ci_files :: "path list" where
  "ci_files = [ci_root @ [''notes.txt''], ci_root @ [''movie.MP4''], ci_root @ [''photo.png''],
     ci_root @ [''assets'', ''logo.png''], ci_root @ [''README.md''], ci_root @ [''gone.txt'']]"

definition ci_state :: run_state where
  "ci_state = \<lparr> violations = [Forbidden [''notes.txt''], AssetTooLarge [''movie.MP4''],
       Forbidden [''movie.MP4''], Forbidden [''photo.png'']],
     total_py_files = 0, total_lines = 0 \<rparr>"

text \<open>A root with a dot file, a question directory and a virtual environment, next to
  a project that lives under a hidden directory.\<close>

definition dot_fs :: node where
  "dot_fs = Dir 4096
     [(''r'', Dir 4096
        [(''.gitignore'', File 3 [''x'']),
         (''q1'', Dir 4096 [(''src'', Dir 4096 [(''a.py'', File 4 [''pass''])])]),
         (''venv'', Dir 4096 [(''lib.py'', File 1 [])])]),
      (''.hidden'', Dir 4096 [(''proj'', Dir 4096 [(''a.py'', File 1 [])])])]"

text \<open>Two question directories: \<open>q2\<close> with six source files, \<open>q1\<close> with a file of
  501 lines and a file of 500 lines. The directory lists \<open>q2\<close> first.\<close>

definition q_root :: path where
  "q_root = [''/'', ''r'']"

definition q_fs :: node where
  "q_fs = Dir 4096 [(''r'', Dir 4096
     [(''q2'', Dir 4096 [(''src'', Dir 4096
         [(''a.py'', File 0 []), (''b.py'', File 0 []), (''c.py'', File 0 []),
          (''d.py'', File 0 []), (''e.py'', File 0 []), (''f.py'', File 0 [])])]),
      (''q1'', Dir 4096 [(''src'', Dir 4096
         [(''long.py'', File 2505 (replicate 501 ''pass'')),
          (''ok.py'', File 2500 (replicate 500 ''pass''))])])])]"

definition q_state :: run_state where
  "q_state = \<lparr> violations = [TooManyLines [''q1'', ''src'', ''long.py''] 500, TooManyScripts ''q2''],
     total_py_files = 8, total_lines = 1001 \<rparr>"


text \<open>Question directories whose \<open>src\<close> holds more than source files: \<open>q3\<close> has
  five source files next to two other files and a package directory with source files of
  its own, \<open>q4\<close> has six source files and a text file. \<open>quiz.txt\<close> is a file whose name
  starts with the prefix, \<open>extra\<close> is a directory whose name does not, \<open>q5\<close> has no
  \<open>src\<close>.\<close>

definition mix_fs :: node where
  "mix_fs = Dir 4096 [(''r'', Dir 4096
     [(''q3'', Dir 4096 [(''src'', Dir 4096
         [(''a.py'', File 0 []), (''b.py'', File 0 []), (''c.py'', File 0 []),
          (''d.py'', File 0 []), (''e.py'', File 0 []),
          (''README.md'', File 0 []), (''data.csv'', File 0 []),
          (''helpers'', Dir 4096 [(''x.py'', File 0 []), (''y.py'', File 0 [])])])]),
      (''q4'', Dir 4096 [(''src'', Dir 4096
         [(''a.py'', File 0 []), (''b.py'', File 0 []), (''c.py'', File 0 []),
          (''d.py'', File 0 []), (''e.py'', File 0 []), (''f.py'', File 0 []),
          (''notes.txt'', File 0 [])])]),
      (''quiz.txt'', File 0 []),
      (''extra'', Dir 4096 [(''src'', Dir 4096
         [(''a.py'', File 0 []), (''b.py'', File 0 []), (''c.py'', File 0 []),
          (''d.py'', File 0 []), (''e.py'', File 0 []), (''f.py'', File 0 [])])]),
      (''q5'', Dir 4096 [])])]"

definition mix_state :: run_state where
  "mix_state = \<lparr> violations = [TooManyScripts ''q4''], total_py_files = 11, total_lines = 0 \<rparr>"


text \<open>A question directory whose \<open>src\<close> holds a source file and a directory named like
  one.\<close>

definition pkg_fs :: node where
  "pkg_fs = Dir 4096 [(''r'', Dir 4096
     [(''q1'', Dir 4096 [(''src'', Dir 4096
         [(''a.py'', File 5 [''pass'']),
          (''pkg.py'', Dir 4096 [])])])])]"

section \<open>Properties\<close>

subsection \<open>Evaluating the model on concrete inputs\<close>

lemmas string_defs = startswith_def endswith_def is_space_def strip_def is_line_boundary_def
  splitlines_def lower_def lower_char_def rfind_def char_of_def bit_0

lemmas path_defs = is_absolute_def parse_parts_def joinpath_def relative_to_def name_def
  suffix_def should_exclude_def

lemmas fs_defs = node_at_def exists_def is_file_def is_dir_def stat_def iterdir_def
  glob_ext_def open_lines_def rglob_def

lemmas engine_defs = asset_rule_def scope_rule_def check_candidate_def question_dirs_def
  evaluate_def init_state_def append_violation_def Constraints_def Let_def

lemma ci_evaluate: "evaluate Constraints ci_fs ci_root False False ci_files = Inr ci_state"
  by (simp add: string_defs path_defs fs_defs engine_defs ci_root_def ci_fs_def ci_files_def
        ci_state_def)

subsection \<open>The violations collected by a run\<close>

lemma violations_append_violation [simp]:
  "violations (append_violation v st) = violations st @ [v]"
  by (simp add: append_violation_def)

lemma joinpath_src [simp]: "joinpath d ''src'' = d @ [''src'']"
  by (simp add: joinpath_def parse_parts_def startswith_def is_absolute_def)

lemma check_candidate_violations:
  assumes "check_candidate c fs root local inst st p = Inr st'"
  shows "violations st' = violations st @ asset_vs c fs root p @ scope_vs c fs root local inst p"
  using assms
  by (auto simp: check_candidate_def asset_rule_def scope_rule_def asset_vs_def scope_vs_def
        oversize_asset_def out_of_scope_def exists_def stat_def Let_def relative_to_def
      split: if_splits sum.splits option.splits)

lemma check_files_violations:
  "check_files c fs root local inst st files = Inr st' \<Longrightarrow>
   violations st' = violations st @
     concat (map (\<lambda>p. asset_vs c fs root p @ scope_vs c fs root local inst p) files)"
proof (induction files arbitrary: st)
  case Nil
  then show ?case by simp
next
  case (Cons p ps)
  from Cons.prems obtain st1 where
    1: "check_candidate c fs root local inst st p = Inr st1" and
    2: "check_files c fs root local inst st1 ps = Inr st'"
    by (auto split: sum.splits)
  show ?case
    using Cons.IH [OF 2] check_candidate_violations [OF 1] by simp
qed


lemma glob_ext_not_exists: "\<not> exists fs d \<Longrightarrow> glob_ext fs d ext = []"
  by (simp add: glob_ext_def exists_def)

lemma check_py_files_violations:
  "check_py_files c fs root st fl = Inr st' \<Longrightarrow>
   violations st' = violations st @ concat (map (py_vs c fs root) fl)"
proof (induction fl arbitrary: st)
  case Nil
  then show ?case by simp
next
  case (Cons f fl)
  from Cons.prems obtain ls where ls: "open_lines fs f = Inr ls"
    by (auto split: sum.splits)
  show ?case
  proof (cases "length ls > max_line_count c")
    case True
    with Cons.prems ls obtain rel where rel: "relative_to f root = Some rel"
      by (auto simp: Let_def split: option.splits)
    with Cons.prems ls True have
      "check_py_files c fs root
         (append_violation (TooManyLines rel (max_line_count c))
            (st\<lparr>total_lines := total_lines st + length ls\<rparr>)) fl = Inr st'"
      by (simp add: Let_def)
    from Cons.IH [OF this] ls True rel show ?thesis
      by (auto simp: py_vs_def too_long_def open_lines_def relative_to_def
            split: option.splits node.splits if_splits)
  next
    case False
    with Cons.prems ls have
      "check_py_files c fs root (st\<lparr>total_lines := total_lines st + length ls\<rparr>) fl = Inr st'"
      by (simp add: Let_def)
    from Cons.IH [OF this] ls False show ?thesis
      by (auto simp: py_vs_def too_long_def open_lines_def
            split: option.splits node.splits)
  qed
qed

lemma check_q_dirs_violations:
  "check_q_dirs c fs root st ds = Inr st' \<Longrightarrow>
   violations st' = violations st @ concat (map (q_vs c fs root) ds)"
proof (induction ds arbitrary: st)
  case Nil
  then show ?case by simp
next
  case (Cons d ds)
  show ?case
  proof (cases "exists fs (d @ [''src''])")
    case False
    with Cons.prems have "check_q_dirs c fs root st ds = Inr st'"
      by simp
    from Cons.IH [OF this] False show ?thesis
      by (simp add: q_vs_def too_many_def glob_ext_not_exists)
  next
    case True
    define py_files where "py_files = glob_ext fs (d @ [''src'']) (target_ext c)"
    define st1 where "st1 = st\<lparr>total_py_files := total_py_files st + length py_files\<rparr>"
    define st2 where "st2 = (if length py_files > max_src_files c
                    then append_violation (TooManyScripts (name d)) st1
                    else st1)"
    have "check_q_dirs c fs root st (d # ds) =
        (case check_py_files c fs root st2 py_files of
           Inl e \<Rightarrow> Inl e
         | Inr st3 \<Rightarrow> check_q_dirs c fs root st3 ds)"
      using True by (simp add: Let_def py_files_def st1_def st2_def)
    with Cons.prems obtain st3 where
      3: "check_py_files c fs root st2 py_files = Inr st3" and
      4: "check_q_dirs c fs root st3 ds = Inr st'"
      by (auto split: sum.splits)
    have "violations st2 = violations st @
        (if length py_files > max_src_files c then [TooManyScripts (name d)] else [])"
      by (simp add: st2_def st1_def)
    with check_py_files_violations [OF 3] Cons.IH [OF 4] True show ?thesis
      by (simp add: q_vs_def too_many_def py_files_def)
  qed
qed

lemma evaluate_violations:
  assumes "evaluate c fs root local inst files = Inr st"
  shows "\<exists>q_dirs. question_dirs c fs root = Inr q_dirs \<and>
     violations st =
       concat (map (\<lambda>p. asset_vs c fs root p @ scope_vs c fs root local inst p) files)
       @ concat (map (q_vs c fs root) q_dirs)"
proof -
  from assms obtain st1 q_dirs where
    1: "check_files c fs root local inst init_state files = Inr st1" and
    2: "question_dirs c fs root = Inr q_dirs" and
    3: "check_q_dirs c fs root st1 q_dirs = Inr st"
    by (auto simp: evaluate_def split: sum.splits)
  from check_files_violations [OF 1] check_q_dirs_violations [OF 3] 2
  show ?thesis by (simp add: init_state_def)
qed



lemma take_drop_eq_iff: "take (length root) p = root \<and> drop (length root) p = rel \<longleftrightarrow> p = root @ rel"
  by (metis append_eq_conv_conj)

lemma count_concat_single:
  assumes "\<And>x. x \<in> set xs \<Longrightarrow> count_list (f x) v = (if x = a \<and> C then 1 else 0)"
  shows "count_list (concat (map f xs)) v = (if C then count_list xs a else 0)"
  using assms by (induction xs) auto

lemma count_concat_none:
  assumes "\<And>x. x \<in> set xs \<Longrightarrow> count_list (f x) v = 0"
  shows "count_list (concat (map f xs)) v = 0"
  using assms by (induction xs) auto

lemma count_asset_vs:
  "count_list (asset_vs c fs root p) v =
     (if oversize_asset c fs p \<and> take (length root) p = root \<and>
         v = AssetTooLarge (drop (length root) p) then 1 else 0)"
  by (auto simp: asset_vs_def)

lemma count_scope_vs:
  "count_list (scope_vs c fs root local inst p) v =
     (if out_of_scope c fs root local inst p \<and> v = Forbidden (drop (length root) p)
      then 1 else 0)"
  by (auto simp: scope_vs_def)

lemma count_py_vs:
  "count_list (py_vs c fs root f) v =
     (if too_long c fs f \<and> take (length root) f = root \<and>
         v = TooManyLines (drop (length root) f) (max_line_count c) then 1 else 0)"
  by (auto simp: py_vs_def)

lemma count_q_vs_other:
  assumes "\<And>q. v \<noteq> TooManyScripts q" and "\<And>rel n. v \<noteq> TooManyLines rel n"
  shows "count_list (q_vs c fs root d) v = 0"
proof -
  have "count_list (concat (map (py_vs c fs root) fl)) v = 0" for fl
    by (rule count_concat_none) (use assms in \<open>auto simp: count_py_vs\<close>)
  with assms show ?thesis
    by (auto simp: q_vs_def)
qed

subsection \<open>Modification scope\<close>

text \<open>
  Claim C1. The modification-scope rule fires only in Student-CI mode, the local flag and
  the instructor bypass both off. In a run that completes, the number of forbidden
  modification violations naming \<open>rel\<close> is the number of times the existing candidate
  \<open>root / rel\<close> occurs in the candidate list when \<open>rel\<close> has no \<open>src\<close> segment, no
  \<open>assets\<close> segment and a file name outside the whitelist, and zero otherwise; so such
  a candidate yields exactly one violation, a permitted one yields none, and in Local or
  Instructor-Bypass mode there is none at all. A candidate that cannot be made relative
  to root leaves the state unchanged.
\<close>

theorem modification_scope_rule:
  assumes "evaluate c fs root local is_instructor files = Inr st"
  shows "count_list (violations st) (Forbidden rel) =
           (if \<not> local \<and> \<not> is_instructor \<and> exists fs (root @ rel) \<and> ''src'' \<notin> set rel \<and>
               ''assets'' \<notin> set rel \<and> name rel \<notin> whitelisted_files c
            then count_list files (root @ rel) else 0)
         \<and> (\<forall>p st0. relative_to p root = None \<longrightarrow>
               scope_rule c root local is_instructor st0 p = st0)"
proof -
  let ?C = "\<not> local \<and> \<not> is_instructor \<and> exists fs (root @ rel) \<and> ''src'' \<notin> set rel \<and>
               ''assets'' \<notin> set rel \<and> name rel \<notin> whitelisted_files c"
  from evaluate_violations [OF assms] obtain q_dirs where
    vs: "violations st =
       concat (map (\<lambda>p. asset_vs c fs root p @ scope_vs c fs root local is_instructor p) files)
       @ concat (map (q_vs c fs root) q_dirs)"
    by blast
  have q: "count_list (concat (map (q_vs c fs root) q_dirs)) (Forbidden rel) = 0"
    by (rule count_concat_none) (simp add: count_q_vs_other)
  have one: "count_list (asset_vs c fs root p @ scope_vs c fs root local is_instructor p)
               (Forbidden rel) = (if p = root @ rel \<and> ?C then 1 else 0)" for p
  proof (cases "p = root @ rel")
    case True
    then show ?thesis
      by (simp add: count_asset_vs count_scope_vs out_of_scope_def)
  next
    case False
    then have "\<not> (take (length root) p = root \<and> drop (length root) p = rel)"
      by (simp add: take_drop_eq_iff)
    with False show ?thesis
      by (auto simp: count_asset_vs count_scope_vs out_of_scope_def)
  qed
  have "count_list
          (concat (map (\<lambda>p. asset_vs c fs root p @ scope_vs c fs root local is_instructor p) files))
          (Forbidden rel) = (if ?C then count_list files (root @ rel) else 0)"
    by (rule count_concat_single) (rule one)
  with vs q show ?thesis
    by (simp add: scope_rule_def)
qed


theorem modification_scope_rule_witness:
  "evaluate Constraints ci_fs ci_root False False ci_files = Inr ci_state
   \<and> count_list (violations ci_state) (Forbidden [''notes.txt'']) = 1
   \<and> relative_to [''/'', ''etc'', ''hosts''] ci_root = None
   \<and> scope_rule Constraints ci_root False False init_state [''/'', ''etc'', ''hosts''] = init_state"
proof -
  have r: "relative_to [''/'', ''etc'', ''hosts''] ci_root = None"
    by (simp add: relative_to_def ci_root_def)
  from modification_scope_rule [OF ci_evaluate, of "[''notes.txt'']"] r ci_evaluate
  show ?thesis
    by (simp add: string_defs path_defs fs_defs engine_defs ci_root_def ci_fs_def ci_files_def)
qed

subsection \<open>Asset size\<close>

text \<open>
  Claim C5. In a run that completes, the number of asset violations naming \<open>rel\<close> is the
  number of times the candidate \<open>root / rel\<close> occurs in the candidate list when its
  extension, lower-cased, is an asset extension and its size is strictly above the
  maximum, and zero otherwise: a file of exactly the limit yields none, one byte more
  yields one, another extension never yields any. The message names the file and 5MB.
\<close>

theorem asset_size_rule:
  assumes "evaluate c fs root local is_instructor files = Inr st"
  shows "count_list (violations st) (AssetTooLarge rel) =
           (if lower (suffix (root @ rel)) \<in> asset_exts c \<and>
               (\<exists>n. node_at fs (root @ rel) = Some n \<and> st_size n > max_asset_size_bytes c)
            then count_list files (root @ rel) else 0)
         \<and> message (AssetTooLarge rel) = ''Asset [bold]'' @ str_path rel @ ''[/bold] exceeds 5MB.''"
proof -
  let ?C = "lower (suffix (root @ rel)) \<in> asset_exts c \<and>
               (\<exists>n. node_at fs (root @ rel) = Some n \<and> st_size n > max_asset_size_bytes c)"
  from evaluate_violations [OF assms] obtain q_dirs where
    vs: "violations st =
       concat (map (\<lambda>p. asset_vs c fs root p @ scope_vs c fs root local is_instructor p) files)
       @ concat (map (q_vs c fs root) q_dirs)"
    by blast
  have q: "count_list (concat (map (q_vs c fs root) q_dirs)) (AssetTooLarge rel) = 0"
    by (rule count_concat_none) (simp add: count_q_vs_other)
  have C: "oversize_asset c fs (root @ rel) \<longleftrightarrow> ?C"
    by (auto simp: oversize_asset_def split: option.splits)
  have one: "count_list (asset_vs c fs root p @ scope_vs c fs root local is_instructor p)
               (AssetTooLarge rel) = (if p = root @ rel \<and> ?C then 1 else 0)" for p
  proof (cases "p = root @ rel")
    case True
    then show ?thesis
      using C by (simp add: count_asset_vs count_scope_vs)
  next
    case False
    then have "\<not> (take (length root) p = root \<and> drop (length root) p = rel)"
      by (simp add: take_drop_eq_iff)
    with False show ?thesis
      by (auto simp: count_asset_vs count_scope_vs)
  qed
  have "count_list
          (concat (map (\<lambda>p. asset_vs c fs root p @ scope_vs c fs root local is_instructor p) files))
          (AssetTooLarge rel) = (if ?C then count_list files (root @ rel) else 0)"
    by (rule count_concat_single) (rule one)
  with vs q show ?thesis
    by simp
qed

theorem asset_size_rule_witness:
  "evaluate Constraints ci_fs ci_root False False ci_files = Inr ci_state
   \<and> count_list (violations ci_state) (AssetTooLarge [''movie.MP4'']) = 1
   \<and> count_list (violations ci_state) (AssetTooLarge [''photo.png'']) = 0
   \<and> message (AssetTooLarge [''movie.MP4'']) = ''Asset [bold]movie.MP4[/bold] exceeds 5MB.''"
proof -
  from asset_size_rule [OF ci_evaluate, of "[''movie.MP4'']"]
    asset_size_rule [OF ci_evaluate, of "[''photo.png'']"] ci_evaluate
  show ?thesis
    by (simp add: string_defs path_defs fs_defs engine_defs ci_root_def ci_fs_def ci_files_def
          str_path_def)
qed

subsection \<open>Candidates that are gone\<close>

lemma check_files_filter_exists:
  "check_files c fs root local inst st (filter (exists fs) files) =
   check_files c fs root local inst st files"
proof (induction files arbitrary: st)
  case Nil
  then show ?case by simp
next
  case (Cons p ps)
  show ?case
  proof (cases "exists fs p")
    case True
    then show ?thesis
      by (simp add: Cons.IH split: sum.splits)
  next
    case False
    then show ?thesis
      by (simp add: Cons.IH check_candidate_def)
  qed
qed

text \<open>
  Claim C10. A candidate path that does not exist when it is evaluated leaves the
  collected violations unchanged, in every mode, and the whole evaluation is the
  evaluation of the candidates that exist: a deleted file outside \<open>src\<close>, outside
  \<open>assets\<close> and not whitelisted yields no forbidden modification in Student-CI mode.
\<close>

theorem missing_candidate_no_violation:
  "(\<not> exists fs p \<longrightarrow> check_candidate c fs root local is_instructor st p = Inr st)
   \<and> evaluate c fs root local is_instructor files =
       evaluate c fs root local is_instructor (filter (exists fs) files)"
  by (simp add: check_candidate_def evaluate_def check_files_filter_exists)

theorem missing_candidate_no_violation_witness:
  "\<not> exists ci_fs (ci_root @ [''gone.txt''])
   \<and> check_candidate Constraints ci_fs ci_root False False init_state (ci_root @ [''gone.txt''])
       = Inr init_state"
proof -
  have "\<not> exists ci_fs (ci_root @ [''gone.txt''])"
    by (simp add: fs_defs ci_root_def ci_fs_def)
  with missing_candidate_no_violation
    [of ci_fs "ci_root @ [''gone.txt'']" Constraints ci_root False False init_state "[]"]
  show ?thesis by simp
qed

subsection \<open>Exit status\<close>




subsection \<open>The PathFilter on every candidate\<close>

lemma gftc_local: "get_files_to_check fs git root True ign = all_files fs root ign"
  by (simp add: get_files_to_check_def)

lemma gftc_failed: "get_files_to_check fs None root False ign = all_files fs root ign"
  by (simp add: get_files_to_check_def)

lemma gftc_empty:
  "strip out = [] \<Longrightarrow> get_files_to_check fs (Some out) root False ign = all_files fs root ign"
  by (simp add: get_files_to_check_def)

lemma gftc_listed:
  "strip out \<noteq> [] \<Longrightarrow> get_files_to_check fs (Some out) root False ign =
     filter (\<lambda>p. \<not> should_exclude p ign)
       (map (\<lambda>line. joinpath root (strip line))
          (filter (\<lambda>line. strip line \<noteq> []) (splitlines (strip out))))"
  by (simp add: get_files_to_check_def)

lemma gftc_not_excluded:
  assumes "p \<in> set (get_files_to_check fs git root is_local ign)"
  shows "\<not> should_exclude p ign"
proof (cases is_local)
  case True
  with assms show ?thesis by (simp add: gftc_local all_files_def)
next
  case False
  show ?thesis
  proof (cases git)
    case None
    with assms False show ?thesis by (simp add: gftc_failed all_files_def)
  next
    case (Some out)
    show ?thesis
    proof (cases "strip out = []")
      case True
      with assms False Some show ?thesis by (simp add: gftc_empty all_files_def)
    next
      case nonempty: False
      with assms False Some show ?thesis by (simp add: gftc_listed)
    qed
  qed
qed

lemma take_snoc_prefix:
  assumes "take (length p + 1) q = p @ [a]"
  shows "take (length p) q = p"
proof -
  from assms have "take (length p) (take (length p + 1) q) = p" by simp
  then show ?thesis by (simp add: min_def)
qed

lemma rglob_prefix:
  "q \<in> set (rglob_node p n) \<Longrightarrow> take (length p) q = p"
  "q \<in> set (rglob_entries p es) \<Longrightarrow> take (length p) q = p"
proof (induction p n and p es arbitrary: q and q rule: rglob_node_rglob_entries.induct)
  case (1 p uu uv)
  then show ?case by simp
next
  case (2 p uw es)
  from "2.prems" consider "q \<in> set (map (\<lambda>e. p @ [fst e]) es)" | "q \<in> set (rglob_entries p es)"
    by auto
  then show ?case
  proof cases
    case 1
    then show ?thesis by auto
  next
    case 2
    from "2.IH" [OF this] show ?thesis .
  qed
next
  case (3 p)
  then show ?case by simp
next
  case (4 p e es)
  from "4.prems" consider "q \<in> set (rglob_node (p @ [fst e]) (snd e))"
    | "q \<in> set (rglob_entries p es)"
    by auto
  then show ?case
  proof cases
    case 1
    from "4.IH"(1) [OF this] have "take (length p + 1) q = p @ [fst e]" by simp
    then show ?thesis by (rule take_snoc_prefix)
  next
    case 2
    from "4.IH"(2) [OF this] show ?thesis .
  qed
qed

lemma should_exclude_append:
  "should_exclude (p @ q) ign \<longleftrightarrow> should_exclude p ign \<or> should_exclude q ign"
  by (auto simp: should_exclude_def list_ex_iff)

lemma should_exclude_prefix:
  assumes "should_exclude root ign" and "take (length root) q = root"
  shows "should_exclude q ign"
proof -
  from assms(2) have "q = root @ drop (length root) q"
    by (metis append_take_drop_id)
  with assms(1) should_exclude_append [of root "drop (length root) q" ign] show ?thesis
    by simp
qed

lemma all_files_excluded_root:
  assumes "should_exclude root ign"
  shows "all_files fs root ign = []"
proof -
  have "should_exclude q ign" if "q \<in> set (rglob fs root)" for q
  proof -
    from that obtain n where "q \<in> set (rglob_node root n)"
      by (cases "node_at fs root") (auto simp: rglob_def)
    then show ?thesis
      using assms rglob_prefix(1) should_exclude_prefix by blast
  qed
  then show ?thesis
    by (auto simp: all_files_def filter_empty_conv)
qed

lemma not_excluded_parts:
  "\<not> should_exclude p ign \<longleftrightarrow> (\<forall>part \<in> set p. part \<notin> ign \<and> \<not> startswith part ''.'')"
  by (auto simp: should_exclude_def list_ex_iff)

lemma name_in_parts: "name p \<noteq> [] \<Longrightarrow> name p \<in> set p"
  by (auto simp: name_def split: if_splits)

lemma not_excluded_name:
  assumes "\<not> should_exclude p ign"
  shows "\<not> startswith (name p) ''.''"
proof (cases "name p = []")
  case True
  then show ?thesis by (simp add: startswith_def)
next
  case False
  then have "name p \<in> set p" by (rule name_in_parts)
  with assms show ?thesis by (simp add: not_excluded_parts)
qed


text \<open>
  Claim C9. Every path returned by \<open>get_files_to_check\<close>, in Local and in CI mode,
  passes the filter on its full sequence of parts: no part is in the ignored set and no
  part begins with a dot. So no candidate file name begins with a dot, the file name that
  the modification-scope rule looks up in the whitelist never begins with a dot (it is
  never \<open>.gitignore\<close>), and a root with a hidden or ignored part gives an empty Local
  candidate list.
\<close>

theorem candidates_pass_path_filter:
  "(\<forall>p \<in> set (get_files_to_check fs git root is_local ign).
      \<not> should_exclude p ign
      \<and> (\<forall>part \<in> set p. part \<notin> ign \<and> \<not> startswith part ''.'')
      \<and> \<not> startswith (name p) ''.''
      \<and> (\<forall>rel. relative_to p root = Some rel \<longrightarrow>
            \<not> startswith (name rel) ''.'' \<and> name rel \<noteq> ''.gitignore''))
   \<and> (should_exclude root ign \<longrightarrow> get_files_to_check fs git root True ign = [])"
proof (intro conjI ballI allI impI)
  fix p
  assume p: "p \<in> set (get_files_to_check fs git root is_local ign)"
  show ne: "\<not> should_exclude p ign"
    using p by (rule gftc_not_excluded)
  show "\<not> startswith (name p) ''.''"
    using ne by (rule not_excluded_name)
  {
    fix part
    assume "part \<in> set p"
    with ne show "part \<notin> ign" and "\<not> startswith part ''.''"
      by (simp_all add: not_excluded_parts)
  }
  {
    fix rel
    assume "relative_to p root = Some rel"
    then have "p = root @ rel"
      by (auto simp: relative_to_def split: if_splits) (metis append_take_drop_id)
    with ne have "\<not> should_exclude rel ign"
      by (simp add: should_exclude_append)
    then show "\<not> startswith (name rel) ''.''"
      by (rule not_excluded_name)
    then show "name rel \<noteq> ''.gitignore''"
      by (auto simp: startswith_def)
  }
next
  assume "should_exclude root ign"
  then show "get_files_to_check fs git root True ign = []"
    by (simp add: gftc_local all_files_excluded_root)
qed


lemma dot_strip: "strip ''.gitignore\<newline>q1/src/a.py'' = ''.gitignore\<newline>q1/src/a.py''"
  by (simp add: string_defs)

lemma dot_splitlines: "splitlines ''.gitignore\<newline>q1/src/a.py'' = [''.gitignore'', ''q1/src/a.py'']"
  by (simp add: string_defs)

lemma dot_changed: "get_files_to_check dot_fs (Some ''.gitignore\<newline>q1/src/a.py'') [''/'', ''r''] False
              (ignored_parts Constraints) = [[''/'', ''r'', ''q1'', ''src'', ''a.py'']]"
proof -
  have "strip ''.gitignore\<newline>q1/src/a.py'' \<noteq> []"
    by (simp add: dot_strip)
  from gftc_listed [OF this] show ?thesis
    by (simp add: dot_strip dot_splitlines string_defs path_defs Constraints_def)
qed


theorem candidates_pass_path_filter_witness:
  "[''/'', ''r'', ''q1'', ''src'', ''a.py'']
     \<in> set (get_files_to_check dot_fs (Some ''.gitignore\<newline>q1/src/a.py'') [''/'', ''r''] False
              (ignored_parts Constraints))
   \<and> \<not> should_exclude [''/'', ''r'', ''q1'', ''src'', ''a.py''] (ignored_parts Constraints)
   \<and> [''/'', ''r'', ''.gitignore'']
     \<notin> set (get_files_to_check dot_fs (Some ''.gitignore\<newline>q1/src/a.py'') [''/'', ''r''] False
              (ignored_parts Constraints))
   \<and> relative_to [''/'', ''r'', ''q1'', ''src'', ''a.py''] [''/'', ''r''] = Some [''q1'', ''src'', ''a.py'']
   \<and> name [''q1'', ''src'', ''a.py''] \<noteq> ''.gitignore''
   \<and> should_exclude [''/'', ''.hidden'', ''proj''] (ignored_parts Constraints)
   \<and> get_files_to_check dot_fs None [''/'', ''.hidden'', ''proj''] True (ignored_parts Constraints) = []"
proof -
  let ?ign = "ignored_parts Constraints"
  let ?git = "Some ''.gitignore\<newline>q1/src/a.py''"
  have mem: "[''/'', ''r'', ''q1'', ''src'', ''a.py'']
     \<in> set (get_files_to_check dot_fs ?git [''/'', ''r''] False ?ign)"
    by (simp add: dot_changed)
  have nmem: "[''/'', ''r'', ''.gitignore'']
     \<notin> set (get_files_to_check dot_fs ?git [''/'', ''r''] False ?ign)"
    by (simp add: dot_changed)
  have h: "should_exclude [''/'', ''.hidden'', ''proj''] ?ign"
    by (simp add: string_defs path_defs Constraints_def)
  from candidates_pass_path_filter [of dot_fs ?git "[''/'', ''r'']" False ?ign] mem
  have a: "\<not> should_exclude [''/'', ''r'', ''q1'', ''src'', ''a.py''] ?ign"
    by blast
  have rel: "relative_to [''/'', ''r'', ''q1'', ''src'', ''a.py''] [''/'', ''r''] =
      Some [''q1'', ''src'', ''a.py'']"
    by (simp add: relative_to_def)
  from candidates_pass_path_filter [of dot_fs ?git "[''/'', ''r'']" False ?ign] mem rel
  have b: "name [''q1'', ''src'', ''a.py''] \<noteq> ''.gitignore''"
    by blast
  from candidates_pass_path_filter [of dot_fs None "[''/'', ''.hidden'', ''proj'']" True ?ign] h
  have c: "get_files_to_check dot_fs None [''/'', ''.hidden'', ''proj''] True ?ign = []"
    by blast
  from mem a nmem rel b h c show ?thesis
    by (intro conjI)
qed


subsection \<open>Change detection and its fallback\<close>

lemma line_boundary_is_space: "is_line_boundary c \<Longrightarrow> is_space c"
  by (auto simp: is_line_boundary_def is_space_def Let_def)

lemma dropWhile_snoc_nonempty:
  assumes "\<not> P c"
  shows "\<exists>w. dropWhile P (xs @ [c]) = w @ [c]"
  using assms by (cases "\<forall>x\<in>set xs. P x") (auto simp: dropWhile_append)

lemma strip_nonspace_head:
  assumes "\<not> is_space c"
  shows "\<exists>t'. strip (c # t) = c # t'"
proof -
  from dropWhile_snoc_nonempty [of is_space c "rev t"] assms obtain w where
    "dropWhile is_space (rev t @ [c]) = w @ [c]" by blast
  with assms show ?thesis
    by (simp add: strip_def)
qed

lemma strip_nonempty_head:
  assumes "strip s \<noteq> []"
  shows "\<exists>c t. strip s = c # t \<and> \<not> is_space c"
proof -
  have ne: "dropWhile is_space s \<noteq> []"
  proof
    assume e: "dropWhile is_space s = []"
    have "strip s = []"
      unfolding strip_def e by simp
    with assms show False by simp
  qed
  then obtain c u where u: "dropWhile is_space s = c # u"
    by (cases "dropWhile is_space s") auto
  from ne have "\<not> is_space (hd (dropWhile is_space s))"
    by (rule hd_dropWhile)
  with u have c: "\<not> is_space c" by simp
  from dropWhile_snoc_nonempty [of is_space c "rev u"] c obtain w where
    "dropWhile is_space (rev u @ [c]) = w @ [c]" by blast
  with u have "strip s = c # rev w"
    by (simp add: strip_def)
  with c show ?thesis by blast
qed

lemma splitlines_from_first:
  "s \<noteq> [] \<or> cur \<noteq> [] \<Longrightarrow> \<exists>t ls. splitlines_from cur s = (cur @ t) # ls"
proof (induction cur s rule: splitlines_from.induct)
  case (1 cur)
  then show ?case by simp
next
  case (2 cur c)
  then show ?case by simp
next
  case (3 cur c d cs)
  show ?case
  proof (cases "(c = CHR 0x0D \<and> d = CHR 0x0A) \<or> is_line_boundary c")
    case True
    then show ?thesis by auto
  next
    case False
    with "3.IH"(3) obtain t ls where
      "splitlines_from (cur @ [c]) (d # cs) = ((cur @ [c]) @ t) # ls"
      by auto
    with False show ?thesis by auto
  qed
qed

lemma splitlines_first_char:
  assumes "\<not> is_line_boundary c"
  shows "\<exists>t ls. splitlines (c # cs) = (c # t) # ls"
proof (cases cs)
  case Nil
  with assms show ?thesis by (simp add: splitlines_def)
next
  case (Cons d cs')
  have cr: "is_line_boundary CHR 0x0D"
    by (simp add: is_line_boundary_def)
  from splitlines_from_first [of "d # cs'" "[c]"] obtain t ls where
    "splitlines_from [c] (d # cs') = ([c] @ t) # ls" by auto
  with assms Cons cr show ?thesis
    by (auto simp: splitlines_def)
qed

lemma listed_lines_nonempty:
  assumes "strip out \<noteq> []"
  shows "filter (\<lambda>line. strip line \<noteq> []) (splitlines (strip out)) \<noteq> []"
proof -
  from strip_nonempty_head [OF assms] obtain c t where
    s: "strip out = c # t" and c: "\<not> is_space c" by blast
  from c have "\<not> is_line_boundary c"
    using line_boundary_is_space by blast
  from splitlines_first_char [OF this, of t] obtain t' ls where
    l: "splitlines (c # t) = (c # t') # ls" by blast
  from strip_nonspace_head [OF c, of t'] have "strip (c # t') \<noteq> []" by auto
  with s l show ?thesis by simp
qed

text \<open>
  Claim C2. In CI mode, when the change-detection subprocess fails, or succeeds with an
  empty list of paths, \<open>get_files_to_check\<close> returns what Local mode returns: the
  recursive enumeration of the files under root that the PathFilter keeps. When it
  succeeds with a non-empty list, the result is each listed path joined to root, filtered
  by the PathFilter. The function is total: no outcome of the subprocess makes it raise.
\<close>

theorem change_detection_fallback:
  "get_files_to_check fs None root False ign = get_files_to_check fs g root True ign
   \<and> get_files_to_check fs g root True ign =
       filter (\<lambda>p. is_file fs p \<and> \<not> should_exclude p ign) (rglob fs root)
   \<and> (let listed = map (\<lambda>line. joinpath root (strip line))
                       (filter (\<lambda>line. strip line \<noteq> []) (splitlines (strip out)))
      in (listed = [] \<longrightarrow>
            get_files_to_check fs (Some out) root False ign =
            get_files_to_check fs g root True ign)
       \<and> (listed \<noteq> [] \<longrightarrow>
            get_files_to_check fs (Some out) root False ign =
            filter (\<lambda>p. \<not> should_exclude p ign) listed))"
proof (cases "strip out = []")
  case True
  then show ?thesis
    by (simp add: gftc_local gftc_failed gftc_empty all_files_def splitlines_def)
next
  case False
  from listed_lines_nonempty [OF False] gftc_listed [OF False, of fs root ign]
  show ?thesis
    by (simp add: gftc_local gftc_failed all_files_def Let_def)
qed

theorem change_detection_fallback_witness:
  "get_files_to_check dot_fs None [''/'', ''r''] False (ignored_parts Constraints)
     = [[''/'', ''r'', ''q1'', ''src'', ''a.py'']]
   \<and> map (\<lambda>line. joinpath [''/'', ''r''] (strip line))
       (filter (\<lambda>line. strip line \<noteq> []) (splitlines (strip '' \<newline>''))) = []
   \<and> get_files_to_check dot_fs (Some '' \<newline>'') [''/'', ''r''] False (ignored_parts Constraints)
     = [[''/'', ''r'', ''q1'', ''src'', ''a.py'']]
   \<and> map (\<lambda>line. joinpath [''/'', ''r''] (strip line))
       (filter (\<lambda>line. strip line \<noteq> []) (splitlines (strip ''.gitignore\<newline>q1/src/a.py'')))
     \<noteq> []
   \<and> get_files_to_check dot_fs (Some ''.gitignore\<newline>q1/src/a.py'') [''/'', ''r''] False
       (ignored_parts Constraints)
     = filter (\<lambda>p. \<not> should_exclude p (ignored_parts Constraints))
         [[''/'', ''r'', ''.gitignore''], [''/'', ''r'', ''q1'', ''src'', ''a.py'']]"
proof -
  let ?ign = "ignored_parts Constraints"
  let ?root = "[''/'', ''r'']"
  let ?listed = "\<lambda>out. map (\<lambda>line. joinpath ?root (strip line))
       (filter (\<lambda>line. strip line \<noteq> []) (splitlines (strip out)))"
  have full: "filter (\<lambda>p. is_file dot_fs p \<and> \<not> should_exclude p ?ign) (rglob dot_fs ?root)
     = [[''/'', ''r'', ''q1'', ''src'', ''a.py'']]"
    by (simp add: string_defs path_defs fs_defs dot_fs_def Constraints_def)
  have blank: "?listed '' \<newline>'' = []"
    by (simp add: string_defs)
  have listed: "?listed ''.gitignore\<newline>q1/src/a.py''
     = [[''/'', ''r'', ''.gitignore''], [''/'', ''r'', ''q1'', ''src'', ''a.py'']]"
    by (simp add: dot_strip dot_splitlines string_defs path_defs)
  note blank_run = change_detection_fallback [of dot_fs ?root ?ign None "'' \<newline>''"]
  note listed_run =
    change_detection_fallback [of dot_fs ?root ?ign None "''.gitignore\<newline>q1/src/a.py''"]
  from blank_run have
    1: "get_files_to_check dot_fs None ?root False ?ign =
        get_files_to_check dot_fs None ?root True ?ign" and
    2: "get_files_to_check dot_fs None ?root True ?ign =
        filter (\<lambda>p. is_file dot_fs p \<and> \<not> should_exclude p ?ign) (rglob dot_fs ?root)" and
    3: "?listed '' \<newline>'' = [] \<longrightarrow>
        get_files_to_check dot_fs (Some '' \<newline>'') ?root False ?ign =
        get_files_to_check dot_fs None ?root True ?ign"
    unfolding Let_def by blast+
  from listed_run have
    4: "?listed ''.gitignore\<newline>q1/src/a.py'' \<noteq> [] \<longrightarrow>
        get_files_to_check dot_fs (Some ''.gitignore\<newline>q1/src/a.py'') ?root False ?ign =
        filter (\<lambda>p. \<not> should_exclude p ?ign) (?listed ''.gitignore\<newline>q1/src/a.py'')"
    unfolding Let_def by blast
  have a: "get_files_to_check dot_fs None ?root False ?ign = [[''/'', ''r'', ''q1'', ''src'', ''a.py'']]"
    by (simp only: 1 2 full)
  have b: "get_files_to_check dot_fs (Some '' \<newline>'') ?root False ?ign
     = [[''/'', ''r'', ''q1'', ''src'', ''a.py'']]"
  proof -
    from 3 blank have "get_files_to_check dot_fs (Some '' \<newline>'') ?root False ?ign =
        get_files_to_check dot_fs None ?root True ?ign"
      by (rule mp)
    then show ?thesis
      by (simp only: 2 full)
  qed
  have c: "?listed ''.gitignore\<newline>q1/src/a.py'' \<noteq> []"
    unfolding listed by simp
  have d: "get_files_to_check dot_fs (Some ''.gitignore\<newline>q1/src/a.py'') ?root False ?ign
     = filter (\<lambda>p. \<not> should_exclude p ?ign)
         [[''/'', ''r'', ''.gitignore''], [''/'', ''r'', ''q1'', ''src'', ''a.py'']]"
  proof -
    from 4 c have
      "get_files_to_check dot_fs (Some ''.gitignore\<newline>q1/src/a.py'') ?root False ?ign =
        filter (\<lambda>p. \<not> should_exclude p ?ign) (?listed ''.gitignore\<newline>q1/src/a.py'')"
      by (rule mp)
    then show ?thesis
      by (simp only: listed)
  qed
  from a blank b c d show ?thesis
    by (intro conjI)
qed

subsection \<open>The Local enumeration\<close>














subsection \<open>The scan of the question directories\<close>

lemma unique_names_entries_member:
  "unique_names_entries es \<Longrightarrow> (s, c) \<in> set es \<Longrightarrow> unique_names c"
  by (induction es) auto

lemma walk_unique_names:
  "unique_names cur \<Longrightarrow> list_all unique_names up \<Longrightarrow> walk cur up ss = Some n \<Longrightarrow>
   unique_names n"
proof (induction ss arbitrary: cur up)
  case Nil
  then show ?case by simp
next
  case (Cons s ss)
  from Cons.prems(3) obtain sz es where cur: "cur = Dir sz es"
    by (cases cur) auto
  show ?case
  proof (cases "s = ''..''")
    case True
    show ?thesis
    proof (cases up)
      case Nil
      with Cons.prems True cur have "walk cur [] ss = Some n" by simp
      from Cons.IH [OF Cons.prems(1) _ this] show ?thesis by simp
    next
      case (Cons u us)
      with Cons.prems True cur have "walk u us ss = Some n" "unique_names u"
        "list_all unique_names us"
        by simp_all
      with Cons.IH show ?thesis by blast
    qed
  next
    case False
    with Cons.prems(3) cur obtain c where c: "map_of es s = Some c"
      and w: "walk c (cur # up) ss = Some n"
      by (cases "map_of es s") auto
    from c have "(s, c) \<in> set es" by (rule map_of_SomeD)
    with Cons.prems(1) cur have "unique_names c"
      using unique_names_entries_member by auto
    moreover from Cons.prems(1,2) have "list_all unique_names (cur # up)" by simp
    ultimately show ?thesis
      using Cons.IH w by blast
  qed
qed

lemma node_at_unique_names:
  assumes "unique_names fs" and "node_at fs p = Some (Dir sz es)"
  shows "distinct (map fst es)"
proof -
  from assms(2) obtain segs where "walk fs [] segs = Some (Dir sz es)"
    by (cases p) (auto simp: node_at_def split: if_splits)
  from walk_unique_names [OF assms(1) _ this] show ?thesis by simp
qed

lemma distinct_count_list:
  "distinct xs \<Longrightarrow> count_list xs x = (if x \<in> set xs then 1 else 0)"
  by (induction xs) auto

lemma name_snoc: "root \<noteq> [] \<Longrightarrow> name (root @ [q]) = q"
  by (cases root) (simp_all add: name_def)

lemma question_dirs_Dir:
  assumes "node_at fs root = Some (Dir sz es)"
  shows "question_dirs c fs root =
     Inr (sort (filter (\<lambda>d. is_dir fs d \<and> startswith (name d) (question_prefix c))
                  (map (\<lambda>e. root @ [fst e]) es)))"
  using assms by (simp add: question_dirs_def iterdir_def)

lemma node_at_Some_nonempty: "node_at fs p = Some n \<Longrightarrow> p \<noteq> []"
  by (auto simp: node_at_def)

lemma question_dirs_set:
  assumes "node_at fs root = Some (Dir sz es)" and "question_dirs c fs root = Inr q_dirs"
  shows "set q_dirs = {root @ [q] | q. q \<in> fst ` set es \<and> is_dir fs (root @ [q]) \<and>
                          startswith q (question_prefix c)}"
proof -
  from assms(1) have "root \<noteq> []" by (rule node_at_Some_nonempty)
  then have "name (root @ [q]) = q" for q by (rule name_snoc)
  with assms question_dirs_Dir [OF assms(1), of c] show ?thesis
    by (auto simp: image_iff) (metis fst_conv)+
qed

lemma question_dirs_distinct:
  assumes "node_at fs root = Some (Dir sz es)" and "question_dirs c fs root = Inr q_dirs"
    and "distinct (map fst es)"
  shows "distinct q_dirs"
proof -
  have "distinct (map (\<lambda>e. root @ [fst e]) es)"
    using assms(3) by (auto simp: distinct_map inj_on_def)
  with assms(2) question_dirs_Dir [OF assms(1), of c] show ?thesis
    by auto
qed

lemma q_evaluate: "evaluate Constraints q_fs q_root True False [] = Inr q_state"
  by (simp add: string_defs path_defs fs_defs engine_defs q_root_def q_fs_def q_state_def)

lemma q_unique_names: "unique_names q_fs"
  by (simp add: q_fs_def)

lemma q_node_at_root:
  "node_at q_fs q_root = Some (Dir 4096
     [(''q2'', Dir 4096 [(''src'', Dir 4096
         [(''a.py'', File 0 []), (''b.py'', File 0 []), (''c.py'', File 0 []),
          (''d.py'', File 0 []), (''e.py'', File 0 []), (''f.py'', File 0 [])])]),
      (''q1'', Dir 4096 [(''src'', Dir 4096
         [(''long.py'', File 2505 (replicate 501 ''pass'')),
          (''ok.py'', File 2500 (replicate 500 ''pass''))])])])"
  by (simp add: fs_defs q_fs_def q_root_def)

lemma endswith_iff: "endswith s suf \<longleftrightarrow> (\<exists>stem. s = stem @ suf)"
proof
  assume "endswith s suf"
  then have "drop (length s - length suf) s = suf"
    by (simp add: endswith_def)
  then have "s = take (length s - length suf) s @ suf"
    by (metis append_take_drop_id)
  then show "\<exists>stem. s = stem @ suf" ..
next
  assume "\<exists>stem. s = stem @ suf"
  then show "endswith s suf"
    by (auto simp: endswith_def)
qed

lemma too_many_iff:
  "too_many c fs d \<longleftrightarrow>
     (\<exists>sz es. node_at fs (d @ [''src'']) = Some (Dir sz es) \<and>
        max_src_files c < length (filter (\<lambda>e. \<exists>stem. fst e = stem @ target_ext c) es))"
proof (cases "node_at fs (d @ [''src''])")
  case None
  then show ?thesis
    by (simp add: too_many_def exists_def)
next
  case (Some n)
  then show ?thesis
    by (cases n) (simp_all add: too_many_def exists_def glob_ext_def endswith_iff)
qed

lemma too_many_scripts_count:
  assumes "evaluate c fs root local is_instructor files = Inr st"
    and "unique_names fs"
    and "node_at fs root = Some (Dir sz es)"
  shows "count_list (violations st) (TooManyScripts q) =
           (if q \<in> fst ` set es \<and> is_dir fs (root @ [q]) \<and> startswith q (question_prefix c) \<and>
               exists fs (root @ [q, ''src'']) \<and>
               max_src_files c < length (glob_ext fs (root @ [q, ''src'']) (target_ext c))
            then 1 else 0)"
proof -
  from evaluate_violations [OF assms(1)] obtain q_dirs where
    qd: "question_dirs c fs root = Inr q_dirs" and
    vs: "violations st =
       concat (map (\<lambda>p. asset_vs c fs root p @ scope_vs c fs root local is_instructor p) files)
       @ concat (map (q_vs c fs root) q_dirs)"
    by blast
  from assms(3) have ne: "root \<noteq> []" by (rule node_at_Some_nonempty)
  note qset = question_dirs_set [OF assms(3) qd]
  from node_at_unique_names [OF assms(2,3)] have "distinct (map fst es)" .
  from question_dirs_distinct [OF assms(3) qd this] have dist: "distinct q_dirs" .
  have cand: "count_list
      (concat (map (\<lambda>p. asset_vs c fs root p @ scope_vs c fs root local is_instructor p) files))
      (TooManyScripts q) = 0"
    by (rule count_concat_none) (simp add: count_asset_vs count_scope_vs)
  have py: "count_list (concat (map (py_vs c fs root) fl)) (TooManyScripts q) = 0" for fl
    by (rule count_concat_none) (simp add: count_py_vs)
  have one: "count_list (q_vs c fs root d) (TooManyScripts q) =
       (if d = root @ [q] \<and> too_many c fs (root @ [q]) then 1 else 0)"
    if "d \<in> set q_dirs" for d
  proof -
    from that qset obtain q' where d: "d = root @ [q']" by auto
    with ne have "name d = q'" by (simp add: name_snoc)
    with d py show ?thesis
      by (auto simp: q_vs_def)
  qed
  have "count_list (concat (map (q_vs c fs root) q_dirs)) (TooManyScripts q) =
       (if too_many c fs (root @ [q]) then count_list q_dirs (root @ [q]) else 0)"
    by (rule count_concat_single) (rule one)
  also have "count_list q_dirs (root @ [q]) = (if root @ [q] \<in> set q_dirs then 1 else 0)"
    using dist by (rule distinct_count_list)
  finally show ?thesis
    using vs cand qset by (auto simp: too_many_def)
qed


text \<open>
  Claim C3. The question directories are the direct children of root that are directories
  and whose name starts with the question prefix. In a run that completes, whatever the
  candidate list and the mode, the number of "too many scripts" violations for the name
  \<open>q\<close> is one when \<open>q\<close> is such a directory, \<open>q/src\<close> is a directory and, among the
  entries it lists itself, those whose name ends with the source extension are more than
  the maximum; it is zero otherwise. Entries with another extension, entries deeper in
  the tree and the contents of the files play no part.
\<close>

theorem source_file_count_rule:
  assumes "evaluate c fs root local is_instructor files = Inr st"
    and "unique_names fs"
    and "node_at fs root = Some (Dir sz es)"
  shows "count_list (violations st) (TooManyScripts q) =
           (if q \<in> fst ` set es \<and> is_dir fs (root @ [q]) \<and> startswith q (question_prefix c) \<and>
               (\<exists>sz' es'. node_at fs (root @ [q, ''src'']) = Some (Dir sz' es') \<and>
                  max_src_files c <
                    length (filter (\<lambda>e. \<exists>stem. fst e = stem @ target_ext c) es'))
            then 1 else 0)"
  using too_many_scripts_count [OF assms, of q] too_many_iff [of c fs "root @ [q]"]
  by (simp add: too_many_def)

lemma mix_evaluate: "evaluate Constraints mix_fs q_root True False [] = Inr mix_state"
  by (simp add: string_defs path_defs fs_defs engine_defs q_root_def mix_fs_def mix_state_def)

lemma mix_unique_names: "unique_names mix_fs"
  by (simp add: mix_fs_def)

lemma mix_node_at_root:
  "node_at mix_fs q_root = Some (Dir 4096
     [(''q3'', Dir 4096 [(''src'', Dir 4096
         [(''a.py'', File 0 []), (''b.py'', File 0 []), (''c.py'', File 0 []),
          (''d.py'', File 0 []), (''e.py'', File 0 []),
          (''README.md'', File 0 []), (''data.csv'', File 0 []),
          (''helpers'', Dir 4096 [(''x.py'', File 0 []), (''y.py'', File 0 [])])])]),
      (''q4'', Dir 4096 [(''src'', Dir 4096
         [(''a.py'', File 0 []), (''b.py'', File 0 []), (''c.py'', File 0 []),
          (''d.py'', File 0 []), (''e.py'', File 0 []), (''f.py'', File 0 []),
          (''notes.txt'', File 0 [])])]),
      (''quiz.txt'', File 0 []),
      (''extra'', Dir 4096 [(''src'', Dir 4096
         [(''a.py'', File 0 []), (''b.py'', File 0 []), (''c.py'', File 0 []),
          (''d.py'', File 0 []), (''e.py'', File 0 []), (''f.py'', File 0 [])])]),
      (''q5'', Dir 4096 [])])"
  by (simp add: fs_defs mix_fs_def q_root_def)

theorem source_file_count_rule_witness:
  "evaluate Constraints q_fs q_root True False [] = Inr q_state
   \<and> unique_names q_fs
   \<and> count_list (violations q_state) (TooManyScripts ''q2'') = 1
   \<and> count_list (violations q_state) (TooManyScripts ''q1'') = 0
   \<and> evaluate Constraints mix_fs q_root True False [] = Inr mix_state
   \<and> unique_names mix_fs
   \<and> count_list (violations mix_state) (TooManyScripts ''q3'') = 0
   \<and> count_list (violations mix_state) (TooManyScripts ''q4'') = 1
   \<and> count_list (violations mix_state) (TooManyScripts ''quiz.txt'') = 0
   \<and> count_list (violations mix_state) (TooManyScripts ''extra'') = 0
   \<and> count_list (violations mix_state) (TooManyScripts ''q5'') = 0"
proof -
  note ev = string_defs path_defs fs_defs Constraints_def q_fs_def mix_fs_def q_root_def
    endswith_iff [symmetric]
  from source_file_count_rule [OF q_evaluate q_unique_names q_node_at_root, of "''q2''"]
  have 2: "count_list (violations q_state) (TooManyScripts ''q2'') = 1"
    by (simp add: ev)
  from source_file_count_rule [OF q_evaluate q_unique_names q_node_at_root, of "''q1''"]
  have 1: "count_list (violations q_state) (TooManyScripts ''q1'') = 0"
    by (simp add: ev)
  from source_file_count_rule [OF mix_evaluate mix_unique_names mix_node_at_root, of "''q3''"]
  have 3: "count_list (violations mix_state) (TooManyScripts ''q3'') = 0"
    by (simp add: ev)
  from source_file_count_rule [OF mix_evaluate mix_unique_names mix_node_at_root, of "''q4''"]
  have 4: "count_list (violations mix_state) (TooManyScripts ''q4'') = 1"
    by (simp add: ev)
  from source_file_count_rule [OF mix_evaluate mix_unique_names mix_node_at_root,
      of "''quiz.txt''"]
  have 5: "count_list (violations mix_state) (TooManyScripts ''quiz.txt'') = 0"
    by (simp add: ev)
  from source_file_count_rule [OF mix_evaluate mix_unique_names mix_node_at_root, of "''extra''"]
  have 6: "count_list (violations mix_state) (TooManyScripts ''extra'') = 0"
    by (simp add: ev)
  from source_file_count_rule [OF mix_evaluate mix_unique_names mix_node_at_root, of "''q5''"]
  have 7: "count_list (violations mix_state) (TooManyScripts ''q5'') = 0"
    by (simp add: ev)
  from q_evaluate q_unique_names 2 1 mix_evaluate mix_unique_names 3 4 5 6 7 show ?thesis
    by (intro conjI)
qed

lemma glob_ext_cases:
  "glob_ext fs d ext = [] \<or>
   (\<exists>sz es. node_at fs d = Some (Dir sz es) \<and>
      glob_ext fs d ext = map (\<lambda>e. d @ [fst e]) (filter (\<lambda>e. endswith (fst e) ext) es))"
  by (auto simp: glob_ext_def split: option.splits node.splits)

lemma glob_ext_elem:
  assumes "f \<in> set (glob_ext fs d ext)"
  shows "\<exists>nm. f = d @ [nm]"
  using glob_ext_cases [of fs d ext] assms by auto

lemma glob_ext_distinct:
  assumes "unique_names fs"
  shows "distinct (glob_ext fs d ext)"
proof -
  from glob_ext_cases [of fs d ext] show ?thesis
  proof
    assume "glob_ext fs d ext = []"
    then show ?thesis by simp
  next
    assume "\<exists>sz es. node_at fs d = Some (Dir sz es) \<and>
      glob_ext fs d ext = map (\<lambda>e. d @ [fst e]) (filter (\<lambda>e. endswith (fst e) ext) es)"
    then obtain sz es where n: "node_at fs d = Some (Dir sz es)" and
      g: "glob_ext fs d ext = map (\<lambda>e. d @ [fst e]) (filter (\<lambda>e. endswith (fst e) ext) es)"
      by blast
    from node_at_unique_names [OF assms n] have "distinct (map fst es)" .
    then have "distinct (map (\<lambda>e. d @ [fst e]) (filter (\<lambda>e. endswith (fst e) ext) es))"
      by (auto simp: distinct_map inj_on_def)
    with g show ?thesis by simp
  qed
qed

lemma too_long_iff:
  "too_long c fs f \<longleftrightarrow> (\<exists>sz ls. node_at fs f = Some (File sz ls) \<and> max_line_count c < length ls)"
  by (auto simp: too_long_def split: option.splits node.splits)

text \<open>
  Claim C4. In a run that completes, the number of line-limit violations naming the
  file \<open>q/src/f\<close> with the limit \<open>n\<close> is one when \<open>n\<close> is the configured maximum, the
  file is one of those counted by the source-file-count rule and its number of lines is
  strictly above the maximum, and zero otherwise: 501 lines give one violation, 500 give
  none. The lines are those of the permissive text-mode reading, which cannot fail.
\<close>

theorem line_count_rule:
  assumes "evaluate c fs root local is_instructor files = Inr st"
    and "unique_names fs"
    and "node_at fs root = Some (Dir sz es)"
  shows "count_list (violations st) (TooManyLines [q, ''src'', f] n) =
           (if n = max_line_count c \<and>
               q \<in> fst ` set es \<and> is_dir fs (root @ [q]) \<and> startswith q (question_prefix c) \<and>
               root @ [q, ''src'', f] \<in> set (glob_ext fs (root @ [q, ''src'']) (target_ext c)) \<and>
               (\<exists>sz' ls. node_at fs (root @ [q, ''src'', f]) = Some (File sz' ls) \<and>
                  max_line_count c < length ls)
            then 1 else 0)"
proof -
  let ?v = "TooManyLines [q, ''src'', f] n"
  let ?f = "root @ [q, ''src'', f]"
  let ?C = "n = max_line_count c \<and> too_long c fs ?f"
  from evaluate_violations [OF assms(1)] obtain q_dirs where
    qd: "question_dirs c fs root = Inr q_dirs" and
    vs: "violations st =
       concat (map (\<lambda>p. asset_vs c fs root p @ scope_vs c fs root local is_instructor p) files)
       @ concat (map (q_vs c fs root) q_dirs)"
    by blast
  note qset = question_dirs_set [OF assms(3) qd]
  from node_at_unique_names [OF assms(2,3)] have "distinct (map fst es)" .
  from question_dirs_distinct [OF assms(3) qd this] have dist: "distinct q_dirs" .
  have cand: "count_list
      (concat (map (\<lambda>p. asset_vs c fs root p @ scope_vs c fs root local is_instructor p) files))
      ?v = 0"
    by (rule count_concat_none) (simp add: count_asset_vs count_scope_vs)
  have per_file: "count_list (py_vs c fs root g) ?v = (if g = ?f \<and> ?C then 1 else 0)" for g
  proof (cases "g = ?f")
    case True
    then show ?thesis by (auto simp: count_py_vs)
  next
    case False
    then have "\<not> (take (length root) g = root \<and> drop (length root) g = [q, ''src'', f])"
      by (simp add: take_drop_eq_iff)
    with False show ?thesis by (auto simp: count_py_vs)
  qed
  have per_dir: "count_list (concat (map (py_vs c fs root) fl)) ?v =
      (if ?C then count_list fl ?f else 0)" for fl
    by (rule count_concat_single) (rule per_file)
  have one: "count_list (q_vs c fs root d) ?v =
       (if d = root @ [q] \<and> (?C \<and> ?f \<in> set (glob_ext fs (root @ [q, ''src'']) (target_ext c)))
        then 1 else 0)"
    if "d \<in> set q_dirs" for d
  proof (cases "d = root @ [q]")
    case True
    from glob_ext_distinct [OF assms(2)]
    have "count_list (glob_ext fs (root @ [q, ''src'']) (target_ext c)) ?f =
        (if ?f \<in> set (glob_ext fs (root @ [q, ''src'']) (target_ext c)) then 1 else 0)"
      by (rule distinct_count_list)
    with True per_dir show ?thesis
      by (simp add: q_vs_def)
  next
    case False
    from that qset obtain q' where d: "d = root @ [q']" by auto
    with False have "q' \<noteq> q" by auto
    have "?f \<notin> set (glob_ext fs (d @ [''src'']) (target_ext c))"
    proof
      assume "?f \<in> set (glob_ext fs (d @ [''src'']) (target_ext c))"
      from glob_ext_elem [OF this] d \<open>q' \<noteq> q\<close> show False by simp
    qed
    then have "count_list (glob_ext fs (d @ [''src'']) (target_ext c)) ?f = 0"
      by simp
    with False per_dir show ?thesis
      by (simp add: q_vs_def)
  qed
  have "count_list (concat (map (q_vs c fs root) q_dirs)) ?v =
       (if ?C \<and> ?f \<in> set (glob_ext fs (root @ [q, ''src'']) (target_ext c))
        then count_list q_dirs (root @ [q]) else 0)"
    by (rule count_concat_single) (rule one)
  also have "count_list q_dirs (root @ [q]) = (if root @ [q] \<in> set q_dirs then 1 else 0)"
    using dist by (rule distinct_count_list)
  finally show ?thesis
    using vs cand qset by (auto simp: too_long_iff)
qed


theorem line_count_rule_witness:
  "evaluate Constraints q_fs q_root True False [] = Inr q_state
   \<and> unique_names q_fs
   \<and> node_at q_fs (q_root @ [''q1'', ''src'', ''long.py'']) = Some (File 2505 (replicate 501 ''pass''))
   \<and> count_list (violations q_state) (TooManyLines [''q1'', ''src'', ''long.py''] 500) = 1
   \<and> node_at q_fs (q_root @ [''q1'', ''src'', ''ok.py'']) = Some (File 2500 (replicate 500 ''pass''))
   \<and> count_list (violations q_state) (TooManyLines [''q1'', ''src'', ''ok.py''] 500) = 0"
proof -
  have l: "node_at q_fs (q_root @ [''q1'', ''src'', ''long.py'']) =
      Some (File 2505 (replicate 501 ''pass''))"
    by (simp add: fs_defs q_fs_def q_root_def)
  have k: "node_at q_fs (q_root @ [''q1'', ''src'', ''ok.py'']) =
      Some (File 2500 (replicate 500 ''pass''))"
    by (simp add: fs_defs q_fs_def q_root_def)
  from line_count_rule [OF q_evaluate q_unique_names q_node_at_root, of "''q1''" "''long.py''" 500]
  have 1: "count_list (violations q_state) (TooManyLines [''q1'', ''src'', ''long.py''] 500) = 1"
    by (simp add: string_defs path_defs fs_defs Constraints_def q_fs_def q_root_def)
  from line_count_rule [OF q_evaluate q_unique_names q_node_at_root, of "''q1''" "''ok.py''" 500]
  have 0: "count_list (violations q_state) (TooManyLines [''q1'', ''src'', ''ok.py''] 500) = 0"
    by (simp add: string_defs path_defs fs_defs Constraints_def q_fs_def q_root_def)
  from q_evaluate q_unique_names l 1 k 0 show ?thesis
    by (intro conjI)
qed


subsection \<open>A source entry that cannot be opened\<close>

text \<open>
  Claim C7. The claim is that rule evaluation never raises: no failure of the asset
  stat, of the modification-scope check or of opening and counting a source file aborts
  the run, which always ends by printing the violation table or the success message.
  The code does not do this. The scan opens every entry that \<^verbatim>\<open>glob\<close> returns for the
  source extension (line 149) with no guard, and \<^verbatim>\<open>glob\<close> returns directories too. With
  a root that lists normally and one directory named \<open>pkg.py\<close> next to a source file in
  \<open>q1/src\<close>, the candidate loop completes, the scan raises IsADirectoryError, and
  nothing is printed, in Local mode and in Student-CI mode alike.
\<close>

theorem scan_raises_on_directory_entry:
  "is_dir pkg_fs [''/'', ''r'']
   \<and> get_files_to_check pkg_fs None [''/'', ''r''] True (ignored_parts Constraints)
       = [[''/'', ''r'', ''q1'', ''src'', ''a.py'']]
   \<and> check_files Constraints pkg_fs [''/'', ''r''] True False init_state
         [[''/'', ''r'', ''q1'', ''src'', ''a.py'']] = Inr init_state
   \<and> glob_ext pkg_fs [''/'', ''r'', ''q1'', ''src''] (target_ext Constraints)
       = [[''/'', ''r'', ''q1'', ''src'', ''a.py''], [''/'', ''r'', ''q1'', ''src'', ''pkg.py'']]
   \<and> open_lines pkg_fs [''/'', ''r'', ''q1'', ''src'', ''pkg.py''] = Inl IsADirectoryError
   \<and> main True None [''/'', ''r''] pkg_fs None = Inl IsADirectoryError
   \<and> main False None [''/'', ''r''] pkg_fs None = Inl IsADirectoryError"
  by (simp add: main_def get_files_to_check_def all_files_def is_instructor_env_def
        string_defs path_defs fs_defs engine_defs pkg_fs_def)

end
